theory Spec2Isabelle
  imports Main "HOL-Library.AList"
begin

section \<open>Data model of \<open>src/index.ts\<close>\<close>

text \<open>
  Paths are JavaScript strings. The keys and members of the dependency table are the
  absolute file paths that the Sass compiler and the file watcher report.
\<close>

type_synonym path = string

datatype OutputStyle = compressed | expanded

text \<open>
  The interface \<open>Params\<close>. The field \<open>context\<close> is written \<open>context_dir\<close>,
  since \<open>context\<close> is a reserved word here.
\<close>

record Params =
  context_dir :: string
  dir :: "string list"
  outputStyle :: OutputStyle
  sourceMap :: bool
  watch :: bool
  debug :: bool

text \<open>
  Option objects are lists of key and value, in insertion order. The PostCSS option object
  is opaque to \<open>index.ts\<close> and is carried as a string.
\<close>

datatype js_value = JBool bool | JStyle OutputStyle | JText string

type_synonym SassOptions = "(string \<times> js_value) list"

record PostsassConfig =
  postcss :: "string option"
  sass :: SassOptions

text \<open>The interface \<open>EntryConfig\<close>.\<close>

record EntryConfig =
  srcRelative :: string
  outRelative :: string
  src :: string
  out :: string
  postsassConfig :: PostsassConfig

text \<open>
  The part of \<open>PostcssPipeResult\<close> that \<open>index.ts\<close> reads: \<open>d.from\<close>, \<open>d.to\<close> and
  \<open>d.sassResult.stats.includedFiles\<close>. (\<open>from\<close> is a reserved word, hence the prefix.)
\<close>

record PostcssPipeResult =
  d_from :: path
  d_to :: path
  includedFiles :: "path list"

text \<open>
  The module-level object \<open>relationships\<close>: from an included file to the entry files that
  depend on it. A JavaScript object keeps its string keys in insertion order, so the table
  is an association list; \<open>AList.update\<close> overwrites a present key in place and appends
  a new key at the end, as an assignment \<open>relationships[f] = v\<close> does. The operator
  \<open>in\<close> is own-key membership here: the keys are file paths, never a property name of
  \<open>Object.prototype\<close>.
\<close>

type_synonym graph = "(path \<times> path list) list"

text \<open>
  What the program prints, one constructor for each \<open>console\<close> call of \<open>index.ts\<close>,
  carrying the values the call prints. The colouring and the shortening of a path by
  \<open>String.replace\<close> are presentation and are not modelled.
\<close>

datatype log_line =
    LogOutputStyle OutputStyle
  | LogSourceMap bool
  | LogNoConfig
  | LogSourceDir string string
  | LogFatal string
  | LogCompileErrors "string list"
  | LogAllCompiled
  | LogGracefulShutdown
  | LogUnit path path
  | LogStartingWatch
  | LogWatching string
  | LogRemoved path
  | LogFileChanged path
  | LogUpdated path
  | LogCompileError path string
  | LogWatchSetupError

text \<open>
  The files that \<open>writeFile\<close> has written under the debug directory:
  \<open>RelationsFile from files\<close> is the file \<open>relations/<basename of from>.json\<close> holding the
  included files of one unit, \<open>RelationshipsFile g\<close> is \<open>relationships.json\<close> holding the
  table \<open>g\<close>.
\<close>

datatype debug_write =
    RelationsFile path "path list"
  | RelationshipsFile graph

text \<open>
  The state of the process that \<open>index.ts\<close> reads and writes: the table, the shared error
  collector, the console, the debug files, and \<open>process.exitCode\<close> (\<open>None\<close> while
  unassigned). The field \<open>compiled\<close> records the arguments of the calls of \<open>compileFile\<close>
  made by the change handler, in order. The field \<open>suspended\<close> holds the calls of the
  \<open>data\<close> listener that wait at \<open>await writeFile(...)\<close>, oldest first, each with the
  \<open>params\<close> and the result \<open>d\<close> that its closure holds.
\<close>

record State =
  relationships :: graph
  errorCollector :: "string list"
  console :: "log_line list"
  written :: "debug_write list"
  compiled :: "path list"
  exitCode :: "nat option"
  suspended :: "(Params \<times> PostcssPipeResult) list"

definition init_state :: State where
  "init_state = \<lparr> relationships = [], errorCollector = [], console = [], written = [],
                  compiled = [], exitCode = None, suspended = [] \<rparr>"

section \<open>The dependency table\<close>

text \<open>
  One iteration of the \<open>forEach\<close> in \<open>relationTracker\<close>, for the included file \<open>f\<close> and the
  entry \<open>d.from\<close>: a new key gets the one-element array, a present key gets the entry pushed
  when \<open>indexOf\<close> does not find it.
\<close>

definition trackFile :: "path \<Rightarrow> path \<Rightarrow> graph \<Rightarrow> graph" where
  "trackFile entryPath f rel =
     (case map_of rel f of
        None \<Rightarrow> AList.update f [entryPath] rel
      | Some ds \<Rightarrow>
          if entryPath \<notin> set ds then AList.update f (ds @ [entryPath]) rel else rel)"

definition relationTracker :: "PostcssPipeResult \<Rightarrow> graph \<Rightarrow> graph" where
  "relationTracker d rel = fold (trackFile (d_from d)) (includedFiles d) rel"

text \<open>
  The lookup of the change handler: \<open>relationships[path]\<close> when \<open>path in relationships\<close>,
  and nothing to iterate over otherwise.
\<close>

definition dependentsOf :: "graph \<Rightarrow> path \<Rightarrow> path list" where
  "dependentsOf rel p = (case map_of rel p of None \<Rightarrow> [] | Some ds \<Rightarrow> ds)"

section \<open>Configuration and entries\<close>

text \<open>
  \<open>loadConfig\<close>. The dynamic import of \<open>postsass.config.js\<close> is an input: \<open>None\<close> when
  the import fails, and otherwise the two fields the function reads, each \<open>Some\<close> exactly
  when its \<open>typeof\<close> is \<open>"object"\<close>. \<open>LogNoConfig\<close> stands for what the \<open>catch\<close>
  prints: the warning, and the error itself when it carries no code.
\<close>

record FileConfig =
  fc_postcss :: "string option"
  fc_sass :: "SassOptions option"

definition sassCliConfig :: "Params \<Rightarrow> SassOptions" where
  "sassCliConfig params =
     [(''outputStyle'', JStyle (outputStyle params)), (''sourceMap'', JBool (sourceMap params))]"

text \<open>The object spread \<open>{ ...a, ...b }\<close>: the keys of \<open>a\<close>, overwritten and extended by \<open>b\<close>.\<close>

definition spread :: "SassOptions \<Rightarrow> SassOptions \<Rightarrow> SassOptions" where
  "spread a b = fold (\<lambda>kv. AList.update (fst kv) (snd kv)) b a"

definition loadConfig :: "Params \<Rightarrow> FileConfig option \<Rightarrow> PostsassConfig \<times> log_line list" where
  "loadConfig params fileConfig =
     (case fileConfig of
        None \<Rightarrow> (\<lparr> postcss = None, sass = sassCliConfig params \<rparr>, [LogNoConfig])
      | Some fc \<Rightarrow>
          (\<lparr> postcss = fc_postcss fc,
             sass = (case fc_sass fc of
                       None \<Rightarrow> sassCliConfig params
                     | Some s \<Rightarrow> spread s (sassCliConfig params)) \<rparr>, []))"

text \<open>\<open>String.split\<close> at a one-character separator, and the call \<open>d.split(":", 2)\<close>.\<close>

fun splitOn :: "char \<Rightarrow> string \<Rightarrow> string list" where
  "splitOn c [] = [[]]"
| "splitOn c (x # xs) =
     (if x = c then [] # splitOn c xs
      else (case splitOn c xs of
              [] \<Rightarrow> [[x]]
            | w # ws \<Rightarrow> (x # w) # ws))"

definition split_colon :: "string \<Rightarrow> string list" where
  "split_colon d = take 2 (splitOn (CHR '':'') d)"

text \<open>
  The body of \<open>dir.map\<close> in \<open>compile\<close>. \<open>path.resolve\<close> is the parameter \<open>resolve\<close>.
  \<open>split[1] ?? split[0]\<close> takes the source directory when there is no second part.
\<close>

definition mkEntry ::
  "(string \<Rightarrow> string \<Rightarrow> string) \<Rightarrow> Params \<Rightarrow> PostsassConfig \<Rightarrow> string \<Rightarrow> EntryConfig" where
  "mkEntry resolve params cfg d =
     (let split = split_colon d;
          s = (case split of [] \<Rightarrow> [] | a # _ \<Rightarrow> a);
          ou = (case split of _ # b # _ \<Rightarrow> b | _ \<Rightarrow> s)
      in \<lparr> srcRelative = s, outRelative = ou,
           src = resolve (context_dir params) s, out = resolve (context_dir params) ou,
           postsassConfig = cfg \<rparr>)"

section \<open>Events and outcomes\<close>

text \<open>
  The program is driven by events. After the synchronous start of \<open>compile\<close> everything
  that happens is one of the following, and the environment decides the order:
  a \<open>data\<close>, \<open>end\<close> or \<open>error\<close> event on the stream of the \<open>i\<close>-th entry; a unit of the
  \<open>i\<close>-th entry that fails to compile; the settling of the \<open>writeFile\<close> promise that the
  \<open>k\<close>-th suspended listener awaits, or of the one that \<open>compile\<close> awaits for
  \<open>relationships.json\<close> (\<open>None\<close> when it resolves, \<open>Some e\<close> when it rejects with the
  error \<open>e\<close>); an event of the watcher of the \<open>i\<close>-th entry; the interrupt.
\<close>

datatype watch_event = Ready | Unlink path | Change path

datatype event =
    Data nat PostcssPipeResult
  | Failed nat string
  | End nat
  | StreamError nat string
  | WriteSettled nat "string option"
  | SnapshotSettled "string option"
  | Watcher nat watch_event
  | SIGINT

text \<open>
  How a part of the program stands after the events received so far: it has returned a
  value; it still waits (for an \<open>end\<close> event, a write or the interrupt); the process has
  died of an uncaught exception; the process was killed by an interrupt for which no
  handler was registered; or the part has thrown to its caller.
\<close>

datatype 'a run = Returned 'a | Waiting | Uncaught string | Killed | Thrown string

definition andThen :: "'a run \<Rightarrow> ('a \<Rightarrow> 'b run) \<Rightarrow> 'b run" where
  "andThen r f =
     (case r of
        Returned a \<Rightarrow> f a
      | Waiting \<Rightarrow> Waiting
      | Uncaught e \<Rightarrow> Uncaught e
      | Killed \<Rightarrow> Killed
      | Thrown e \<Rightarrow> Thrown e)"

section \<open>The data listener\<close>

text \<open>
  The end of \<open>dataListener\<close>, from the guard \<open>params.watch || params.debug\<close> on.
\<close>

definition afterWrite :: "Params \<Rightarrow> PostcssPipeResult \<Rightarrow> State \<Rightarrow> State" where
  "afterWrite params d st =
     (if watch params \<or> debug params
      then st\<lparr> relationships := relationTracker d (relationships st) \<rparr>
      else st)"

text \<open>
  \<open>dataListener\<close>, as far as it runs when the \<open>data\<close> event is emitted. It prints the line
  for the unit. With \<open>params.debug\<close> it calls \<open>writeFile\<close> for the unit's included files and
  is suspended at the \<open>await\<close>; without, it runs on to its end.
\<close>

definition dataListener :: "Params \<Rightarrow> EntryConfig \<Rightarrow> PostcssPipeResult \<Rightarrow> State \<Rightarrow> State" where
  "dataListener params entry d st =
     (let st1 = st\<lparr> console := console st @ [LogUnit (d_from d) (d_to d)] \<rparr>
      in if debug params
         then st1\<lparr> suspended := suspended st1 @ [(params, d)] \<rparr>
         else afterWrite params d st1)"

text \<open>
  The write that the \<open>k\<close>-th suspended listener awaits settles. When it resolves, the file
  is there and the listener runs on to its end. When it rejects, the listener ends with
  the rejection and the rest of its body is not run.
\<close>

definition settleWrite :: "nat \<Rightarrow> string option \<Rightarrow> State \<Rightarrow> State" where
  "settleWrite k r st =
     (if k < length (suspended st)
      then (let pd = suspended st ! k;
                st1 = st\<lparr> suspended := take k (suspended st) @ drop (Suc k) (suspended st) \<rparr>
            in case r of
                 None \<Rightarrow>
                   afterWrite (fst pd) (snd pd)
                     (st1\<lparr> written := written st1
                             @ [RelationsFile (d_from (snd pd)) (includedFiles (snd pd))] \<rparr>)
               | Some e \<Rightarrow> st1)
      else st)"

text \<open>
  Nothing handles the promise that a listener returns. When the listener ends with a
  rejection, the run-time either raises it as an uncaught exception or only warns; which
  one is its mode for unhandled rejections, the parameter \<open>thr\<close>.
\<close>

definition unhandled :: "bool \<Rightarrow> nat \<Rightarrow> string option \<Rightarrow> State \<Rightarrow> string option" where
  "unhandled thr k r st = (if thr \<and> k < length (suspended st) then r else None)"

section \<open>The one-shot pass\<close>

text \<open>
  Modelled from the spec: the module \<open>lib/compilerPipe\<close> and the error collector of
  \<open>lib/util/error-collector\<close> are not part of the sources. By the spec a unit that fails
  to compile is recorded in the shared error collector, emits no \<open>data\<close> event and does
  not stop the units after it: the branch for \<open>Failed\<close>. The branch for \<open>Data\<close> is the
  listener that \<open>compile\<close> registers on the stream of the entry, and the branch for
  \<open>WriteSettled\<close> resumes a suspended listener. No other event changes the state while
  the streams run.
\<close>

definition passStep :: "Params \<Rightarrow> EntryConfig list \<Rightarrow> event \<Rightarrow> State \<Rightarrow> State" where
  "passStep params entries ev st =
     (case ev of
        Data i d \<Rightarrow> if i < length entries then dataListener params (entries ! i) d st else st
      | Failed i msg \<Rightarrow> st\<lparr> errorCollector := errorCollector st @ [msg] \<rparr>
      | WriteSettled k r \<Rightarrow> settleWrite k r st
      | _ \<Rightarrow> st)"

text \<open>
  Modelled from the spec: \<open>hasErrors\<close> of the error collector, which is not part of the
  sources, says whether the collector holds one or more errors.
\<close>

definition hasErrors :: "State \<Rightarrow> bool" where
  "hasErrors st = (errorCollector st \<noteq> [])"

text \<open>
  \<open>Promise.all(cbs)\<close> resolves when the stream of every entry has emitted \<open>end\<close>:
  \<open>ended\<close> lists the entries whose promise is resolved.
\<close>

definition allEnded :: "nat \<Rightarrow> nat list \<Rightarrow> bool" where
  "allEnded n ended = list_all (\<lambda>i. i \<in> set ended) [0..<n]"

text \<open>
  \<open>await Promise.all(cbs)\<close> when no promise is rejected: the events are handled as they
  arrive until every stream has ended, and the events not yet handled are returned with
  the state. The streams of all entries run at once, so their events come in any order,
  and a listener suspended at its \<open>await\<close> is not waited for. The executor registers a
  listener for \<open>data\<close> and for \<open>end\<close> only and never calls \<open>reject\<close>: an \<open>error\<close> event
  on a stream has no listener and is raised as an uncaught exception. No handler for the
  interrupt is registered before watch mode.
\<close>

fun pass :: "Params \<Rightarrow> bool \<Rightarrow> EntryConfig list \<Rightarrow> nat list \<Rightarrow> event list \<Rightarrow> State
    \<Rightarrow> (State \<times> event list) run" where
  "pass params thr entries ended [] st =
     (if allEnded (length entries) ended then Returned (st, []) else Waiting)"
| "pass params thr entries ended (ev # rest) st =
     (if allEnded (length entries) ended then Returned (st, ev # rest)
      else case ev of
             End i \<Rightarrow> pass params thr entries (i # ended) rest st
           | StreamError i e \<Rightarrow> Uncaught e
           | SIGINT \<Rightarrow> Killed
           | WriteSettled k r \<Rightarrow>
               (case unhandled thr k r st of
                  Some e \<Rightarrow> Uncaught e
                | None \<Rightarrow> pass params thr entries ended rest (passStep params entries ev st))
           | _ \<Rightarrow> pass params thr entries ended rest (passStep params entries ev st))"

section \<open>Watch mode\<close>

text \<open>
  \<open>compileFile\<close> of \<open>lib/compilerPipe\<close> is a parameter. It reads the file system, so it
  takes and returns a world \<open>'w\<close>; it resolves with a result (\<open>Inr\<close>) or rejects with an
  error whose message it carries (\<open>Inl\<close>). It has no access to the table, which is private
  to \<open>index.ts\<close>.
\<close>

type_synonym 'w compiler = "'w \<Rightarrow> path \<Rightarrow> EntryConfig \<Rightarrow> (string + PostcssPipeResult) \<times> 'w"

text \<open>
  The \<open>for ... of\<close> loop of the change handler over the dependents found for the changed
  file, with its \<open>try\<close>/\<open>catch\<close> around each \<open>await compileFile(p, entry)\<close>.
\<close>

fun recompileAll :: "'w compiler \<Rightarrow> EntryConfig \<Rightarrow> path list \<Rightarrow> State \<times> 'w \<Rightarrow> State \<times> 'w" where
  "recompileAll cf entry [] sw = sw"
| "recompileAll cf entry (p # ps) (st, w) =
     (case cf w p entry of
        (Inr wr, w') \<Rightarrow>
          recompileAll cf entry ps
            (st\<lparr> compiled := compiled st @ [p],
                 console := console st @ [LogUpdated (d_from wr)] \<rparr>, w')
      | (Inl msg, w') \<Rightarrow>
          recompileAll cf entry ps
            (st\<lparr> compiled := compiled st @ [p],
                 console := console st @ [LogCompileError p msg] \<rparr>, w'))"

definition changeHandler :: "'w compiler \<Rightarrow> EntryConfig \<Rightarrow> path \<Rightarrow> State \<times> 'w \<Rightarrow> State \<times> 'w" where
  "changeHandler cf entry p sw =
     (let st1 = (fst sw)\<lparr> console := console (fst sw) @ [LogFileChanged p] \<rparr>
      in case map_of (relationships st1) p of
           None \<Rightarrow> (st1, snd sw)
         | Some ds \<Rightarrow> recompileAll cf entry ds (st1, snd sw))"

text \<open>The three listeners registered on the watcher of an entry.\<close>

definition watcherEvent :: "'w compiler \<Rightarrow> EntryConfig \<Rightarrow> watch_event \<Rightarrow> State \<times> 'w \<Rightarrow> State \<times> 'w" where
  "watcherEvent cf entry ev sw =
     (case ev of
        Ready \<Rightarrow> ((fst sw)\<lparr> console := console (fst sw) @ [LogWatching (srcRelative entry)] \<rparr>, snd sw)
      | Unlink p \<Rightarrow> ((fst sw)\<lparr> console := console (fst sw) @ [LogRemoved p] \<rparr>, snd sw)
      | Change p \<Rightarrow> changeHandler cf entry p sw)"

text \<open>
  The watchers run until the interrupt closes them and resolves their promises; closing
  is taken to resolve at once. A change handler runs to its end before the next event is
  handled. A listener of the one-shot pass that is still suspended is resumed when its
  write settles. The streams have ended and emit nothing more.
\<close>

fun watchLoop :: "'w compiler \<Rightarrow> bool \<Rightarrow> EntryConfig list \<Rightarrow> event list \<Rightarrow> State \<times> 'w
    \<Rightarrow> (State \<times> 'w) run" where
  "watchLoop cf thr entries [] sw = Waiting"
| "watchLoop cf thr entries (SIGINT # rest) sw = Returned sw"
| "watchLoop cf thr entries (Watcher i ev # rest) sw =
     watchLoop cf thr entries rest
       (if i < length entries then watcherEvent cf (entries ! i) ev sw else sw)"
| "watchLoop cf thr entries (WriteSettled k r # rest) sw =
     (case unhandled thr k r (fst sw) of
        Some e \<Rightarrow> Uncaught e
      | None \<Rightarrow> watchLoop cf thr entries rest (settleWrite k r (fst sw), snd sw))"
| "watchLoop cf thr entries (ev # rest) sw = watchLoop cf thr entries rest sw"

text \<open>
  \<open>enableWatchMode\<close>. \<open>chokidarOk\<close> says whether the dynamic import of the watcher library
  succeeds; when it fails the \<open>catch\<close> prints the error and the function returns. The
  import is taken to settle before the next event. With no entry, \<open>Promise.all([])\<close>
  resolves at once.
\<close>

definition enableWatchMode ::
  "'w compiler \<Rightarrow> bool \<Rightarrow> bool \<Rightarrow> EntryConfig list \<Rightarrow> event list \<Rightarrow> State \<times> 'w
     \<Rightarrow> (State \<times> 'w) run" where
  "enableWatchMode cf thr chokidarOk entries evs sw =
     (if \<not> chokidarOk
      then Returned ((fst sw)\<lparr> console := console (fst sw) @ [LogWatchSetupError] \<rparr>, snd sw)
      else (let sw1 = ((fst sw)\<lparr> console := console (fst sw) @ [LogStartingWatch] \<rparr>, snd sw)
            in if entries = [] then Returned sw1 else watchLoop cf thr entries evs sw1))"

section \<open>\<open>compile\<close>\<close>

text \<open>
  What \<open>compile\<close> receives from outside \<open>index.ts\<close>: \<open>path.resolve\<close>; the imported
  configuration file; for each entry, the error that the promise executor throws when
  setting up the stream (\<open>klaw\<close>, \<open>filterFiles\<close> or \<open>compilerPipe\<close> throwing at the call),
  if any; the events in the order of their arrival; whether the watcher library loads;
  and whether the run-time raises unhandled rejections.
\<close>

record Env =
  resolve :: "string \<Rightarrow> string \<Rightarrow> string"
  fileConfig :: "FileConfig option"
  executorThrows :: "EntryConfig \<Rightarrow> string option"
  events :: "event list"
  chokidarOk :: bool
  rejectionsThrow :: bool

definition mkEntries :: "Env \<Rightarrow> Params \<Rightarrow> EntryConfig list" where
  "mkEntries env params =
     map (mkEntry (resolve env) params (fst (loadConfig params (fileConfig env)))) (dir params)"

text \<open>
  The synchronous start of \<open>compile\<close>, up to \<open>await Promise.all(cbs)\<close>: the two header
  lines, the lines of \<open>loadConfig\<close>, and one line for each entry, printed by its promise
  executor inside \<open>entries.map\<close> before it sets up the stream.
\<close>

definition preamble :: "Env \<Rightarrow> Params \<Rightarrow> State \<Rightarrow> State" where
  "preamble env params st =
     st\<lparr> console := console st
          @ [LogOutputStyle (outputStyle params), LogSourceMap (sourceMap params)]
          @ snd (loadConfig params (fileConfig env))
          @ map (\<lambda>e. LogSourceDir (srcRelative e) (outRelative e)) (mkEntries env params) \<rparr>"

text \<open>
  An executor that throws rejects its promise, and \<open>Promise.all(cbs)\<close> rejects with the
  error of the first such entry. This is the only way into the \<open>catch\<close> of \<open>compile\<close>, and
  it is taken before any event arrives.
\<close>

definition executorFailure :: "Env \<Rightarrow> Params \<Rightarrow> string option" where
  "executorFailure env params =
     (case List.map_filter (executorThrows env) (mkEntries env params) of
        [] \<Rightarrow> None
      | e # _ \<Rightarrow> Some e)"

text \<open>The one-shot pass of \<open>compile\<close> when no executor throws.\<close>

definition coldBuild :: "Env \<Rightarrow> Params \<Rightarrow> State \<Rightarrow> (State \<times> event list) run" where
  "coldBuild env params st =
     pass params (rejectionsThrow env) (mkEntries env params) [] (events env) (preamble env params st)"

text \<open>
  \<open>await writeFile(..., JSON.stringify(relationships, null, 2))\<close> in \<open>compile\<close>. The table
  is serialised when the call is made: \<open>g\<close> is the table at that moment. Until the write
  settles, suspended listeners may be resumed. When the write rejects, \<open>compile\<close> throws.
\<close>

fun awaitSnapshot :: "bool \<Rightarrow> graph \<Rightarrow> event list \<Rightarrow> State \<Rightarrow> (State \<times> event list) run" where
  "awaitSnapshot thr g [] st = Waiting"
| "awaitSnapshot thr g (SnapshotSettled None # rest) st =
     Returned (st\<lparr> written := written st @ [RelationshipsFile g] \<rparr>, rest)"
| "awaitSnapshot thr g (SnapshotSettled (Some e) # rest) st = Thrown e"
| "awaitSnapshot thr g (SIGINT # rest) st = Killed"
| "awaitSnapshot thr g (WriteSettled k r # rest) st =
     (case unhandled thr k r st of
        Some e \<Rightarrow> Uncaught e
      | None \<Rightarrow> awaitSnapshot thr g rest (settleWrite k r st))"
| "awaitSnapshot thr g (ev # rest) st = awaitSnapshot thr g rest st"

text \<open>
  \<open>compile\<close>. The result says how the call stands after the events of the environment:
  \<open>Waiting\<close> means that it has not returned yet.
\<close>

definition compile :: "'w compiler \<Rightarrow> Env \<Rightarrow> Params \<Rightarrow> State \<times> 'w \<Rightarrow> (State \<times> 'w) run" where
  "compile cf env params sw =
     (case executorFailure env params of
        Some e \<Rightarrow>
          Returned ((preamble env params (fst sw))
                      \<lparr> console := console (preamble env params (fst sw)) @ [LogFatal e],
                        exitCode := Some 1 \<rparr>, snd sw)
      | None \<Rightarrow>
          andThen (coldBuild env params (fst sw)) (\<lambda>(st, evs).
            if hasErrors st
            then Returned (st\<lparr> console := console st @ [LogCompileErrors (errorCollector st)],
                              exitCode := Some 2 \<rparr>, snd sw)
            else
              andThen (if debug params
                       then awaitSnapshot (rejectionsThrow env) (relationships st) evs st
                       else Returned (st, evs)) (\<lambda>(st1, evs1).
                (let st2 = st1\<lparr> console := console st1 @ [LogAllCompiled] \<rparr>
                 in if watch params
                    then andThen (enableWatchMode cf (rejectionsThrow env) (chokidarOk env)
                                    (mkEntries env params) evs1 (st2, snd sw)) (\<lambda>sw'.
                           Returned ((fst sw')\<lparr> console := console (fst sw') @ [LogGracefulShutdown],
                                              exitCode := Some 0 \<rparr>, snd sw'))
                    else Returned (st2, snd sw)))))"

section \<open>Example inputs\<close>

text \<open>
  A project \<open>/p\<close> with the root mapping \<open>s:o\<close>. The entries \<open>app.scss\<close>, \<open>bad.scss\<close> and
  \<open>main.scss\<close> all include the partial \<open>_base.scss\<close>; \<open>ex_state\<close> holds the table that
  recording the three of them in this order gives. The example compiler counts its calls
  in the world, rejects \<open>bad.scss\<close> and reports a new partial \<open>_new.scss\<close> for every other
  file.
\<close>

definition ex_params :: "bool \<Rightarrow> bool \<Rightarrow> Params" where
  "ex_params w d = \<lparr> context_dir = ''/p'', dir = [''s:o''], outputStyle = expanded,
                      sourceMap = False, watch = w, debug = d \<rparr>"

definition ex_entry :: EntryConfig where
  "ex_entry = \<lparr> srcRelative = ''s'', outRelative = ''o'', src = ''/p/s'', out = ''/p/o'',
                 postsassConfig = \<lparr> postcss = None, sass = [] \<rparr> \<rparr>"

definition ex_app :: PostcssPipeResult where
  "ex_app = \<lparr> d_from = ''/p/s/app.scss'', d_to = ''/p/o/app.css'',
               includedFiles = [''/p/s/app.scss'', ''/p/s/_base.scss''] \<rparr>"

definition ex_main :: PostcssPipeResult where
  "ex_main = \<lparr> d_from = ''/p/s/main.scss'', d_to = ''/p/o/main.css'',
                includedFiles = [''/p/s/main.scss'', ''/p/s/_base.scss''] \<rparr>"

definition ex_compiler :: "nat compiler" where
  "ex_compiler n p entry =
     (if p = ''/p/s/bad.scss'' then (Inl ''syntax error'', Suc n)
      else (Inr \<lparr> d_from = p, d_to = p @ ''.css'', includedFiles = [p, ''/p/s/_new.scss''] \<rparr>,
            Suc n))"

definition ex_state :: State where
  "ex_state = init_state\<lparr> relationships :=
     [(''/p/s/app.scss'', [''/p/s/app.scss'']),
      (''/p/s/_base.scss'', [''/p/s/app.scss'', ''/p/s/bad.scss'', ''/p/s/main.scss'']),
      (''/p/s/bad.scss'', [''/p/s/bad.scss'']),
      (''/p/s/main.scss'', [''/p/s/main.scss''])] \<rparr>"

text \<open>
  A later result of \<open>app.scss\<close> that no longer includes \<open>_base.scss\<close>, and an environment
  in which every executor throws \<open>thrown\<close> (or none does) and the events are \<open>evs\<close>.
\<close>

definition ex_dropped :: PostcssPipeResult where
  "ex_dropped = \<lparr> d_from = ''/p/s/app.scss'', d_to = ''/p/o/app.css'',
                   includedFiles = [''/p/s/app.scss''] \<rparr>"

definition ex_env :: "string option \<Rightarrow> event list \<Rightarrow> Env" where
  "ex_env thrown evs = \<lparr> resolve = (\<lambda>a b. a @ ''/'' @ b), fileConfig = None,
      executorThrows = (\<lambda>e. thrown), events = evs, chokidarOk = True,
      rejectionsThrow = True \<rparr>"

section \<open>Facts about the dependency table\<close>

lemma dependentsOf_trackFile:
  "dependentsOf (trackFile e f g) k =
     (if k = f \<and> e \<notin> set (dependentsOf g f) then dependentsOf g f @ [e] else dependentsOf g k)"
  by (auto simp: dependentsOf_def trackFile_def AList.update_conv' split: option.splits)

lemma dependentsOf_fold_trackFile:
  "dependentsOf (fold (trackFile e) fs g) k =
     (if k \<in> set fs \<and> e \<notin> set (dependentsOf g k) then dependentsOf g k @ [e] else dependentsOf g k)"
proof (induction fs arbitrary: g)
  case Nil
  show ?case by simp
next
  case (Cons f fs)
  show ?case
    by (auto simp: Cons.IH dependentsOf_trackFile)
qed

lemma trackFile_fixed:
  "map_of g f = Some ds \<Longrightarrow> e \<in> set ds \<Longrightarrow> trackFile e f g = g"
  by (simp add: trackFile_def)

lemma trackFile_records:
  "\<exists>ds. map_of (trackFile e f g) f = Some ds \<and> e \<in> set ds"
  by (auto simp: trackFile_def AList.update_conv' split: option.splits)

lemma trackFile_keeps:
  "map_of g k = Some ds \<Longrightarrow> e \<in> set ds \<Longrightarrow> \<exists>ds'. map_of (trackFile e f g) k = Some ds' \<and> e \<in> set ds'"
  by (auto simp: trackFile_def AList.update_conv' split: option.splits)

lemma fold_trackFile_keeps:
  "map_of g k = Some ds \<Longrightarrow> e \<in> set ds \<Longrightarrow>
     \<exists>ds'. map_of (fold (trackFile e) fs g) k = Some ds' \<and> e \<in> set ds'"
proof (induction fs arbitrary: g ds)
  case Nil
  then show ?case by simp
next
  case (Cons f fs)
  from trackFile_keeps [OF Cons.prems, of f]
  obtain ds' where "map_of (trackFile e f g) k = Some ds'" "e \<in> set ds'" by blast
  from Cons.IH [OF this] show ?case by simp
qed

lemma fold_trackFile_records:
  "k \<in> set fs \<Longrightarrow> \<exists>ds. map_of (fold (trackFile e) fs g) k = Some ds \<and> e \<in> set ds"
proof (induction fs arbitrary: g)
  case Nil
  then show ?case by simp
next
  case (Cons f fs)
  show ?case
  proof (cases "k = f")
    case True
    obtain ds where "map_of (trackFile e f g) k = Some ds" "e \<in> set ds"
      using trackFile_records [of e f g] True by blast
    from fold_trackFile_keeps [OF this] show ?thesis by simp
  next
    case False
    with Cons.prems have "k \<in> set fs" by simp
    from Cons.IH [OF this] show ?thesis by simp
  qed
qed

lemma fold_trackFile_fixed:
  "(\<And>k. k \<in> set fs \<Longrightarrow> \<exists>ds. map_of g k = Some ds \<and> e \<in> set ds) \<Longrightarrow>
     fold (trackFile e) fs g = g"
proof (induction fs)
  case Nil
  show ?case by simp
next
  case (Cons f fs)
  obtain ds where "map_of g f = Some ds" "e \<in> set ds"
    using Cons.prems [of f] by auto
  then have "trackFile e f g = g" by (rule trackFile_fixed)
  moreover have "fold (trackFile e) fs g = g"
    using Cons.prems by (intro Cons.IH) simp
  ultimately show ?case by simp
qed

lemma relationTracker_twice:
  "relationTracker d (relationTracker d g) = relationTracker d g"
  unfolding relationTracker_def
  by (rule fold_trackFile_fixed) (rule fold_trackFile_records)

lemma keys_trackFile: "fst ` set (trackFile e f g) = insert f (fst ` set g)"
  by (auto simp: trackFile_def AList.dom_update split: option.splits dest: map_of_SomeD
      intro: rev_image_eqI)

lemma keys_fold_trackFile: "fst ` set (fold (trackFile e) fs g) = fst ` set g \<union> set fs"
  by (induction fs arbitrary: g) (auto simp: keys_trackFile)

section \<open>Facts about the change handler\<close>

lemma recompileAll_state:
  "relationships (fst (recompileAll cf entry ps sw)) = relationships (fst sw) \<and>
   errorCollector (fst (recompileAll cf entry ps sw)) = errorCollector (fst sw) \<and>
   written (fst (recompileAll cf entry ps sw)) = written (fst sw) \<and>
   exitCode (fst (recompileAll cf entry ps sw)) = exitCode (fst sw) \<and>
   suspended (fst (recompileAll cf entry ps sw)) = suspended (fst sw) \<and>
   compiled (fst (recompileAll cf entry ps sw)) = compiled (fst sw) @ ps"
proof (induction ps arbitrary: sw)
  case Nil
  show ?case by simp
next
  case (Cons p ps)
  obtain st w where sw: "sw = (st, w)" by (cases sw)
  obtain r w' where r: "cf w p entry = (r, w')" by (cases "cf w p entry")
  show ?case
  proof (cases r)
    case (Inl msg)
    then show ?thesis using Cons.IH r sw by simp
  next
    case (Inr wr)
    then show ?thesis using Cons.IH r sw by simp
  qed
qed

lemma changeHandler_loop:
  "changeHandler cf entry p (st, w) =
     recompileAll cf entry (dependentsOf (relationships st) p)
       (st\<lparr> console := console st @ [LogFileChanged p] \<rparr>, w)"
  by (simp add: changeHandler_def dependentsOf_def split: option.splits)

lemma changeHandler_state:
  "relationships (fst (changeHandler cf entry p sw)) = relationships (fst sw) \<and>
   errorCollector (fst (changeHandler cf entry p sw)) = errorCollector (fst sw) \<and>
   written (fst (changeHandler cf entry p sw)) = written (fst sw) \<and>
   exitCode (fst (changeHandler cf entry p sw)) = exitCode (fst sw) \<and>
   suspended (fst (changeHandler cf entry p sw)) = suspended (fst sw) \<and>
   compiled (fst (changeHandler cf entry p sw)) =
     compiled (fst sw) @ dependentsOf (relationships (fst sw)) p"
  by (cases sw) (simp add: changeHandler_loop recompileAll_state)

lemma watcherEvent_state:
  "relationships (fst (watcherEvent cf entry ev sw)) = relationships (fst sw) \<and>
   errorCollector (fst (watcherEvent cf entry ev sw)) = errorCollector (fst sw) \<and>
   written (fst (watcherEvent cf entry ev sw)) = written (fst sw) \<and>
   exitCode (fst (watcherEvent cf entry ev sw)) = exitCode (fst sw) \<and>
   suspended (fst (watcherEvent cf entry ev sw)) = suspended (fst sw)"
  by (cases ev) (simp_all add: watcherEvent_def changeHandler_state)

lemma recompileAll_append:
  "recompileAll cf entry (ps @ qs) sw = recompileAll cf entry qs (recompileAll cf entry ps sw)"
proof (induction ps arbitrary: sw)
  case Nil
  show ?case by simp
next
  case (Cons p ps)
  obtain st w where sw: "sw = (st, w)" by (cases sw)
  show ?case
    by (simp add: sw Cons.IH split: prod.splits sum.splits)
qed

text \<open>The world after the loop: each call of the compiler gets the world the call before left.\<close>

lemma recompileAll_world:
  "snd (recompileAll cf entry ps (st, w)) = fold (\<lambda>p v. snd (cf v p entry)) ps w"
proof (induction ps arbitrary: st w)
  case Nil
  show ?case by simp
next
  case (Cons p ps)
  show ?case
    by (auto simp: Cons.IH split: prod.splits sum.splits)
qed

lemma recompileAll_console:
  "\<exists>ls. console (fst (recompileAll cf entry ps sw)) = console (fst sw) @ ls \<and> length ls = length ps"
proof (induction ps arbitrary: sw)
  case Nil
  show ?case by simp
next
  case (Cons p ps)
  obtain st w where sw: "sw = (st, w)" by (cases sw)
  obtain r w' where r: "cf w p entry = (r, w')" by (cases "cf w p entry")
  define l where "l = (case r of Inl msg \<Rightarrow> LogCompileError p msg | Inr wr \<Rightarrow> LogUpdated (d_from wr))"
  define st1 where "st1 = st\<lparr> compiled := compiled st @ [p], console := console st @ [l] \<rparr>"
  have step: "recompileAll cf entry (p # ps) sw = recompileAll cf entry ps (st1, w')"
    by (cases r) (simp_all add: sw r st1_def l_def)
  obtain ls where "console (fst (recompileAll cf entry ps (st1, w'))) = console st1 @ ls"
    "length ls = length ps"
    using Cons.IH [of "(st1, w')"] by auto
  then have "console (fst (recompileAll cf entry (p # ps) sw)) = console (fst sw) @ (l # ls) \<and>
      length (l # ls) = length (p # ps)"
    unfolding step by (simp add: st1_def sw)
  then show ?case by blast
qed

text \<open>
  The line that the loop prints for its \<open>i\<close>-th path: the outcome of the call of the
  compiler on that path, in the world that the calls before it have left.
\<close>

lemma recompileAll_line:
  assumes i: "i < length ps"
  shows "console (fst (recompileAll cf entry ps (st, w))) ! (length (console st) + i) =
     (case fst (cf (fold (\<lambda>p v. snd (cf v p entry)) (take i ps) w) (ps ! i) entry) of
        Inl msg \<Rightarrow> LogCompileError (ps ! i) msg
      | Inr wr \<Rightarrow> LogUpdated (d_from wr))"
proof -
  define mid where "mid = recompileAll cf entry (take i ps) (st, w)"
  define p where "p = ps ! i"
  have split: "ps = take i ps @ p # drop (Suc i) ps"
    using i by (simp add: id_take_nth_drop p_def)
  have world: "snd mid = fold (\<lambda>p v. snd (cf v p entry)) (take i ps) w"
    unfolding mid_def by (rule recompileAll_world)
  obtain ls where ls: "console (fst mid) = console st @ ls" "length ls = i"
    using recompileAll_console [of cf entry "take i ps" "(st, w)"] i
    by (auto simp: mid_def)
  obtain s v where mid: "mid = (s, v)" by (cases mid)
  obtain r w' where r: "cf v p entry = (r, w')" by (cases "cf v p entry")
  define l where "l = (case r of Inl msg \<Rightarrow> LogCompileError p msg | Inr wr \<Rightarrow> LogUpdated (d_from wr))"
  define st1 where "st1 = s\<lparr> compiled := compiled s @ [p], console := console s @ [l] \<rparr>"
  have "recompileAll cf entry ps (st, w) = recompileAll cf entry (p # drop (Suc i) ps) mid"
    unfolding mid_def by (subst split) (simp only: recompileAll_append)
  also have "\<dots> = recompileAll cf entry (drop (Suc i) ps) (st1, w')"
    by (cases r) (simp_all add: mid r st1_def l_def)
  finally have eq: "recompileAll cf entry ps (st, w) =
      recompileAll cf entry (drop (Suc i) ps) (st1, w')" .
  obtain ms where "console (fst (recompileAll cf entry (drop (Suc i) ps) (st1, w'))) = console st1 @ ms"
    using recompileAll_console [of cf entry "drop (Suc i) ps" "(st1, w')"] by auto
  then have "console (fst (recompileAll cf entry ps (st, w))) = (console st @ ls) @ l # ms"
    using ls(1) unfolding eq by (simp add: st1_def mid)
  then have "console (fst (recompileAll cf entry ps (st, w))) ! (length (console st) + i) = l"
    using ls(2) by (simp add: nth_append)
  moreover have "fst (cf (fold (\<lambda>p v. snd (cf v p entry)) (take i ps) w) (ps ! i) entry) = r"
    using r world by (simp add: mid p_def)
  ultimately show ?thesis
    by (simp add: l_def p_def split: sum.splits)
qed

section \<open>Facts about the listeners and the loops\<close>

lemma afterWrite_state:
  "errorCollector (afterWrite params d st) = errorCollector st \<and>
   console (afterWrite params d st) = console st \<and>
   written (afterWrite params d st) = written st \<and>
   compiled (afterWrite params d st) = compiled st \<and>
   exitCode (afterWrite params d st) = exitCode st \<and>
   suspended (afterWrite params d st) = suspended st"
  by (simp add: afterWrite_def)

lemma dataListener_state:
  "errorCollector (dataListener params entry d st) = errorCollector st \<and>
   console (dataListener params entry d st) = console st @ [LogUnit (d_from d) (d_to d)] \<and>
   written (dataListener params entry d st) = written st \<and>
   compiled (dataListener params entry d st) = compiled st \<and>
   exitCode (dataListener params entry d st) = exitCode st"
  by (simp add: dataListener_def Let_def afterWrite_state)

lemma settleWrite_state:
  "errorCollector (settleWrite k r st) = errorCollector st \<and>
   console (settleWrite k r st) = console st \<and>
   compiled (settleWrite k r st) = compiled st \<and>
   exitCode (settleWrite k r st) = exitCode st"
  by (simp add: settleWrite_def Let_def afterWrite_state split: option.splits)

lemma settleWrite_written:
  "RelationshipsFile g \<in> set (written (settleWrite k r st)) \<longleftrightarrow>
     RelationshipsFile g \<in> set (written st)"
  by (simp add: settleWrite_def Let_def afterWrite_state split: option.splits)

lemma passStep_state:
  "compiled (passStep params entries ev st) = compiled st \<and>
   exitCode (passStep params entries ev st) = exitCode st"
  by (cases ev) (simp_all add: passStep_def dataListener_state settleWrite_state)

lemma passStep_written:
  "RelationshipsFile g \<in> set (written (passStep params entries ev st)) \<longleftrightarrow>
     RelationshipsFile g \<in> set (written st)"
  by (cases ev) (simp_all add: passStep_def dataListener_state settleWrite_written)

lemma passStep_console:
  "LogStartingWatch \<in> set (console (passStep params entries ev st)) \<longleftrightarrow>
     LogStartingWatch \<in> set (console st)"
  by (cases ev) (simp_all add: passStep_def dataListener_state settleWrite_state)

text \<open>What every event of the pass keeps, the pass keeps.\<close>

lemma pass_invariant:
  assumes step: "\<And>ev s. Q s \<Longrightarrow> Q (passStep params entries ev s)"
  shows "Q st \<Longrightarrow> pass params thr entries ended evs st = Returned (st', rest) \<Longrightarrow> Q st'"
proof (induction evs arbitrary: ended st)
  case Nil
  then show ?case by (simp split: if_splits)
next
  case (Cons ev evs)
  show ?case
  proof (cases "allEnded (length entries) ended")
    case True
    with Cons.prems show ?thesis by simp
  next
    case False
    have next_state: "Q (passStep params entries ev st)"
      using Cons.prems(1) by (rule step)
    show ?thesis
      using Cons.prems False next_state Cons.IH
      by (cases ev) (auto split: option.splits)
  qed
qed

lemma awaitSnapshot_invariant:
  assumes settle: "\<And>k r s. Q s \<Longrightarrow> Q (settleWrite k r s)"
    and wr: "\<And>s. Q s \<Longrightarrow> Q (s\<lparr> written := written s @ [RelationshipsFile g] \<rparr>)"
  shows "Q st \<Longrightarrow> awaitSnapshot thr g evs st = Returned (st', rest) \<Longrightarrow> Q st'"
proof (induction evs arbitrary: st)
  case Nil
  then show ?case by simp
next
  case (Cons ev evs)
  show ?case
  proof (cases ev)
    case (WriteSettled k r)
    have "Q (settleWrite k r st)" using Cons.prems(1) by (rule settle)
    with Cons.prems(2) Cons.IH WriteSettled show ?thesis
      by (auto split: option.splits)
  next
    case (SnapshotSettled r)
    have "Q (st\<lparr> written := written st @ [RelationshipsFile g] \<rparr>)"
      using Cons.prems(1) by (rule wr)
    with Cons.prems(2) SnapshotSettled show ?thesis
      by (cases r) auto
  qed (use Cons in auto)
qed

lemma watchLoop_invariant:
  assumes settle: "\<And>k r s. Q s \<Longrightarrow> Q (settleWrite k r s)"
    and wev: "\<And>entry ev sw. Q (fst sw) \<Longrightarrow> Q (fst (watcherEvent cf entry ev sw))"
  shows "Q (fst sw) \<Longrightarrow> watchLoop cf thr entries evs sw = Returned sw' \<Longrightarrow> Q (fst sw')"
proof (induction evs arbitrary: sw)
  case Nil
  then show ?case by simp
next
  case (Cons ev evs)
  show ?case
  proof (cases ev)
    case (WriteSettled k r)
    have "Q (fst (settleWrite k r (fst sw), snd sw))"
      using Cons.prems(1) by (simp add: settle)
    with Cons.prems(2) Cons.IH WriteSettled show ?thesis
      by (auto split: option.splits)
  next
    case (Watcher i wev)
    have "Q (fst (if i < length entries then watcherEvent cf (entries ! i) wev sw else sw))"
      using Cons.prems(1) by (simp add: wev)
    with Cons.prems(2) Cons.IH Watcher show ?thesis
      by simp
  qed (use Cons in auto)
qed

lemma watchLoop_returns:
  "SIGINT \<in> set evs \<Longrightarrow> watchLoop cf thr entries evs sw \<noteq> Waiting"
  by (induction cf thr entries evs sw rule: watchLoop.induct) (auto split: option.splits)

section \<open>Facts about the table across a run\<close>

lemma andThen_Returned:
  "andThen r f = Returned b \<longleftrightarrow> (\<exists>a. r = Returned a \<and> f a = Returned b)"
  by (cases r) (simp_all add: andThen_def)

text \<open>A property of the table that every recording keeps is kept by the whole program.\<close>

lemma afterWrite_graph:
  assumes rec: "\<And>d g. P g \<Longrightarrow> P (relationTracker d g)"
  shows "P (relationships st) \<Longrightarrow> P (relationships (afterWrite params d st))"
  by (simp add: afterWrite_def rec)

lemma dataListener_graph:
  assumes rec: "\<And>d g. P g \<Longrightarrow> P (relationTracker d g)"
  shows "P (relationships st) \<Longrightarrow> P (relationships (dataListener params entry d st))"
  by (simp add: dataListener_def Let_def afterWrite_graph [where P = P] rec)

lemma settleWrite_graph:
  assumes rec: "\<And>d g. P g \<Longrightarrow> P (relationTracker d g)"
  shows "P (relationships st) \<Longrightarrow> P (relationships (settleWrite k r st))"
  by (simp add: settleWrite_def Let_def afterWrite_graph [where P = P] rec split: option.splits)

lemma passStep_graph:
  assumes rec: "\<And>d g. P g \<Longrightarrow> P (relationTracker d g)"
  shows "P (relationships st) \<Longrightarrow> P (relationships (passStep params entries ev st))"
  by (cases ev)
     (simp_all add: passStep_def dataListener_graph [where P = P] settleWrite_graph [where P = P] rec)

lemma coldBuild_graph:
  assumes rec: "\<And>d g. P g \<Longrightarrow> P (relationTracker d g)"
    and init: "P (relationships st)"
    and ret: "coldBuild env params st = Returned (st', rest)"
  shows "P (relationships st')"
proof (rule pass_invariant [where Q = "\<lambda>s. P (relationships s)"])
  show "P (relationships (passStep params (mkEntries env params) ev s))"
    if "P (relationships s)" for ev and s :: State
    by (rule passStep_graph [where P = P]) (simp_all add: rec that)
  show "P (relationships (preamble env params st))"
    using init by (simp add: preamble_def)
  show "pass params (rejectionsThrow env) (mkEntries env params) [] (events env)
          (preamble env params st) = Returned (st', rest)"
    using ret by (simp add: coldBuild_def)
qed

lemma awaitSnapshot_graph:
  assumes rec: "\<And>d g. P g \<Longrightarrow> P (relationTracker d g)"
    and init: "P (relationships st)"
    and ret: "awaitSnapshot thr g evs st = Returned (st', rest)"
  shows "P (relationships st')"
proof (rule awaitSnapshot_invariant [where Q = "\<lambda>s. P (relationships s)", OF _ _ init ret])
  show "P (relationships (settleWrite k r s))" if "P (relationships s)" for k r and s :: State
    by (rule settleWrite_graph [where P = P]) (simp_all add: rec that)
  show "P (relationships (s\<lparr> written := written s @ [RelationshipsFile g] \<rparr>))"
    if "P (relationships s)" for s :: State
    using that by simp
qed

lemma enableWatchMode_graph:
  assumes rec: "\<And>d g. P g \<Longrightarrow> P (relationTracker d g)"
    and init: "P (relationships (fst sw))"
    and ret: "enableWatchMode cf thr ok entries evs sw = Returned sw'"
  shows "P (relationships (fst sw'))"
proof -
  have loop: "P (relationships (fst y))"
    if "P (relationships (fst x))" "watchLoop cf thr entries evs x = Returned y" for x y
  proof (rule watchLoop_invariant [where Q = "\<lambda>s. P (relationships s)", OF _ _ that])
    show "P (relationships (settleWrite k r s))" if "P (relationships s)" for k r and s :: State
      by (rule settleWrite_graph [where P = P]) (simp_all add: rec that)
    show "P (relationships (fst (watcherEvent cf entry ev z)))"
      if "P (relationships (fst z))" for entry ev z
      using that by (simp add: watcherEvent_state)
  qed
  show ?thesis
    using ret init
    by (auto simp: enableWatchMode_def Let_def split: if_splits dest!: loop [rotated])
qed

lemma compile_graph:
  assumes rec: "\<And>d g. P g \<Longrightarrow> P (relationTracker d g)"
    and init: "P (relationships st)"
    and ret: "compile cf env params (st, w) = Returned (st', w')"
  shows "P (relationships st')"
proof (cases "executorFailure env params")
  case (Some e)
  with ret init show ?thesis
    by (auto simp: compile_def preamble_def)
next
  case None
  with ret obtain s1 evs1 where cold: "coldBuild env params st = Returned (s1, evs1)"
    by (auto simp: compile_def andThen_Returned)
  have p1: "P (relationships s1)"
    by (rule coldBuild_graph [where P = P, OF rec init cold])
  show ?thesis
  proof (cases "hasErrors s1")
    case True
    with ret None cold p1 show ?thesis
      by (auto simp: compile_def andThen_def)
  next
    case False
    from ret None cold False obtain s2 evs2 where
      snap: "(if debug params then awaitSnapshot (rejectionsThrow env) (relationships s1) evs1 s1
              else Returned (s1, evs1)) = Returned (s2, evs2)"
      and rest: "(if watch params
          then andThen (enableWatchMode cf (rejectionsThrow env) (chokidarOk env)
                 (mkEntries env params) evs2
                 (s2\<lparr> console := console s2 @ [LogAllCompiled] \<rparr>, snd (st, w)))
               (\<lambda>sw'. Returned ((fst sw')\<lparr> console := console (fst sw') @ [LogGracefulShutdown],
                                            exitCode := Some 0 \<rparr>, snd sw'))
          else Returned (s2\<lparr> console := console s2 @ [LogAllCompiled] \<rparr>, snd (st, w))) =
        Returned (st', w')"
      by (auto simp: compile_def andThen_Returned Let_def)
    have p2: "P (relationships s2)"
      using snap p1 awaitSnapshot_graph [where P = P, OF rec p1]
      by (auto split: if_splits)
    show ?thesis
    proof (cases "watch params")
      case True
      with rest obtain sw' where
        en: "enableWatchMode cf (rejectionsThrow env) (chokidarOk env) (mkEntries env params) evs2
               (s2\<lparr> console := console s2 @ [LogAllCompiled] \<rparr>, w) = Returned sw'"
        and st': "st' = (fst sw')\<lparr> console := console (fst sw') @ [LogGracefulShutdown],
                                  exitCode := Some 0 \<rparr>"
        by (auto simp: andThen_Returned)
      have "P (relationships (fst sw'))"
      proof (rule enableWatchMode_graph [where P = P])
        show "P (relationTracker d g)" if "P g" for d g
          using that by (rule rec)
        show "P (relationships (fst (s2\<lparr> console := console s2 @ [LogAllCompiled] \<rparr>, w)))"
          using p2 by simp
        show "enableWatchMode cf (rejectionsThrow env) (chokidarOk env) (mkEntries env params)
            evs2 (s2\<lparr> console := console s2 @ [LogAllCompiled] \<rparr>, w) = Returned sw'"
          by (rule en)
      qed
      then show ?thesis by (simp add: st')
    next
      case nw: False
      with rest p2 show ?thesis by auto
    qed
  qed
qed

section \<open>The dependency table: idempotence and fan-out\<close>

text \<open>
  Claim C4. \<open>relationTracker\<close> is idempotent: from every table, recording the same result
  twice gives the table that recording it once gives, so every file has the same list of
  dependents, of the same length, after the second call as after the first.
\<close>

theorem relationTracker_idempotent:
  "relationTracker d (relationTracker d g) = relationTracker d g \<and>
   dependentsOf (relationTracker d (relationTracker d g)) f = dependentsOf (relationTracker d g) f \<and>
   length (dependentsOf (relationTracker d (relationTracker d g)) f) =
     length (dependentsOf (relationTracker d g) f)"
  by (simp add: relationTracker_twice)

theorem relationTracker_idempotent_witness:
  "relationTracker ex_app (relationTracker ex_app []) = relationTracker ex_app [] \<and>
   dependentsOf (relationTracker ex_app (relationTracker ex_app [])) ''/p/s/_base.scss'' =
     [''/p/s/app.scss'']"
  using relationTracker_idempotent [of ex_app "[]" "''/p/s/_base.scss''"]
  by (simp add: relationTracker_def trackFile_def dependentsOf_def ex_app_def)

text \<open>
  Claim C5. Fan-out: let two results of distinct entries both report the file \<open>s\<close>. When
  \<open>s\<close> has no dependents before, its dependents after both recordings are the two entries
  and nothing else, the entry recorded first standing first, in either order of recording.
  From any table, the dependents of \<open>s\<close> afterwards are the earlier ones and the two entries.
\<close>

theorem fan_out:
  assumes "d_from a \<noteq> d_from b"
    and "s \<in> set (includedFiles a)" and "s \<in> set (includedFiles b)"
  shows "(dependentsOf g s = [] \<longrightarrow>
            dependentsOf (relationTracker b (relationTracker a g)) s = [d_from a, d_from b] \<and>
            dependentsOf (relationTracker a (relationTracker b g)) s = [d_from b, d_from a]) \<and>
         set (dependentsOf (relationTracker b (relationTracker a g)) s) =
           set (dependentsOf g s) \<union> {d_from a, d_from b} \<and>
         set (dependentsOf (relationTracker a (relationTracker b g)) s) =
           set (dependentsOf g s) \<union> {d_from a, d_from b}"
  using assms by (auto simp: relationTracker_def dependentsOf_fold_trackFile)

theorem fan_out_witness:
  "dependentsOf (relationTracker ex_main (relationTracker ex_app [])) ''/p/s/_base.scss'' =
     [''/p/s/app.scss'', ''/p/s/main.scss''] \<and>
   dependentsOf (relationTracker ex_app (relationTracker ex_main [])) ''/p/s/_base.scss'' =
     [''/p/s/main.scss'', ''/p/s/app.scss'']"
  using fan_out [of ex_app ex_main "''/p/s/_base.scss''" "[]"]
  by (simp add: ex_app_def ex_main_def dependentsOf_def)

section \<open>The change handler\<close>

text \<open>
  Claim C3. On a change of the file \<open>F\<close> the handler runs its loop over the recorded
  dependents of \<open>F\<close> and over nothing else. The compiler is called once for each of them,
  one after the other in recorded order, each call in the world that the call before it
  left; after the line for the change, the console holds one line for each dependent, in
  order, which is the outcome of the call for that dependent. When \<open>F\<close> is not a key of
  the table, the handler prints the change and does nothing else: no compile is attempted,
  no error is printed, and the world is untouched. The keys of the table are the files that
  the recorded results reported: a recording adds the included files of its result to the
  keys and nothing else.
\<close>

theorem change_recompiles_dependents:
  "changeHandler cf entry F (st, w) =
     recompileAll cf entry (dependentsOf (relationships st) F)
       (st\<lparr> console := console st @ [LogFileChanged F] \<rparr>, w) \<and>
   snd (changeHandler cf entry F (st, w)) =
     fold (\<lambda>p v. snd (cf v p entry)) (dependentsOf (relationships st) F) w \<and>
   compiled (fst (changeHandler cf entry F (st, w))) =
     compiled st @ dependentsOf (relationships st) F \<and>
   length (console (fst (changeHandler cf entry F (st, w)))) =
     length (console st) + 1 + length (dependentsOf (relationships st) F) \<and>
   (\<forall>i < length (dependentsOf (relationships st) F).
      console (fst (changeHandler cf entry F (st, w))) ! (length (console st) + 1 + i) =
        (case fst (cf (fold (\<lambda>p v. snd (cf v p entry))
                         (take i (dependentsOf (relationships st) F)) w)
                      (dependentsOf (relationships st) F ! i) entry) of
           Inl msg \<Rightarrow> LogCompileError (dependentsOf (relationships st) F ! i) msg
         | Inr wr \<Rightarrow> LogUpdated (d_from wr))) \<and>
   (F \<notin> fst ` set (relationships st) \<longrightarrow>
      changeHandler cf entry F (st, w) = (st\<lparr> console := console st @ [LogFileChanged F] \<rparr>, w)) \<and>
   fst ` set (relationTracker d g) = fst ` set g \<union> set (includedFiles d)"
proof (intro conjI allI impI)
  let ?ds = "dependentsOf (relationships st) F"
  let ?st1 = "st\<lparr> console := console st @ [LogFileChanged F] \<rparr>"
  show loop: "changeHandler cf entry F (st, w) = recompileAll cf entry ?ds (?st1, w)"
    by (rule changeHandler_loop)
  show "snd (changeHandler cf entry F (st, w)) = fold (\<lambda>p v. snd (cf v p entry)) ?ds w"
    by (simp add: loop recompileAll_world)
  show "compiled (fst (changeHandler cf entry F (st, w))) = compiled st @ ?ds"
    using changeHandler_state [of cf entry F "(st, w)"] by simp
  show "length (console (fst (changeHandler cf entry F (st, w)))) =
      length (console st) + 1 + length ?ds"
    using recompileAll_console [of cf entry ?ds "(?st1, w)"] by (auto simp: loop)
  show "console (fst (changeHandler cf entry F (st, w))) ! (length (console st) + 1 + i) =
        (case fst (cf (fold (\<lambda>p v. snd (cf v p entry)) (take i ?ds) w) (?ds ! i) entry) of
           Inl msg \<Rightarrow> LogCompileError (?ds ! i) msg
         | Inr wr \<Rightarrow> LogUpdated (d_from wr))"
    if "i < length ?ds" for i
    using recompileAll_line [OF that, of cf entry ?st1 w] by (simp add: loop)
  show "changeHandler cf entry F (st, w) = (?st1, w)" if "F \<notin> fst ` set (relationships st)"
  proof -
    from that have "map_of (relationships st) F = None"
      by (simp add: map_of_eq_None_iff)
    then show ?thesis by (simp add: changeHandler_def)
  qed
  show "fst ` set (relationTracker d g) = fst ` set g \<union> set (includedFiles d)"
    by (simp add: relationTracker_def keys_fold_trackFile)
qed

theorem change_recompiles_dependents_witness:
  "changeHandler ex_compiler ex_entry ''/p/s/_base.scss'' (ex_state, 0) =
     (ex_state\<lparr> compiled := [''/p/s/app.scss'', ''/p/s/bad.scss'', ''/p/s/main.scss''],
                console := [LogFileChanged ''/p/s/_base.scss'', LogUpdated ''/p/s/app.scss'',
                            LogCompileError ''/p/s/bad.scss'' ''syntax error'',
                            LogUpdated ''/p/s/main.scss''] \<rparr>, 3) \<and>
   snd (changeHandler ex_compiler ex_entry ''/p/s/_base.scss'' (ex_state, 0)) = 3 \<and>
   console (fst (changeHandler ex_compiler ex_entry ''/p/s/_base.scss'' (ex_state, 0))) ! 2 =
     LogCompileError ''/p/s/bad.scss'' ''syntax error'' \<and>
   ''/p/s/_other.scss'' \<notin> fst ` set (relationships ex_state) \<and>
   changeHandler ex_compiler ex_entry ''/p/s/_other.scss'' (ex_state, 0) =
     (ex_state\<lparr> console := [LogFileChanged ''/p/s/_other.scss''] \<rparr>, 0) \<and>
   fst ` set (relationTracker ex_app []) = {''/p/s/app.scss'', ''/p/s/_base.scss''}"
  using change_recompiles_dependents [of ex_compiler ex_entry "''/p/s/_base.scss''" ex_state 0
      ex_app "[]"]
    change_recompiles_dependents [of ex_compiler ex_entry "''/p/s/_other.scss''" ex_state 0
      ex_app "[]"]
  by (simp add: ex_state_def init_state_def dependentsOf_def ex_app_def ex_compiler_def)



section \<open>Removal, growth of the table, and recompiles in watch mode\<close>

text \<open>
  Claim C7. Removal is inert: the listener for \<open>unlink\<close> prints the removed path and does
  nothing else. For every path, a tracked dependency included, no compile is attempted and
  the table stays as it is.
\<close>

theorem removal_is_inert:
  "watcherEvent cf entry (Unlink p) (st, w) = (st\<lparr> console := console st @ [LogRemoved p] \<rparr>, w) \<and>
   relationships (fst (watcherEvent cf entry (Unlink p) (st, w))) = relationships st \<and>
   compiled (fst (watcherEvent cf entry (Unlink p) (st, w))) = compiled st"
  by (simp add: watcherEvent_def)

theorem removal_is_inert_witness:
  "dependentsOf (relationships ex_state) ''/p/s/_base.scss'' \<noteq> [] \<and>
   watcherEvent ex_compiler ex_entry (Unlink ''/p/s/_base.scss'') (ex_state, 0) =
     (ex_state\<lparr> console := [LogRemoved ''/p/s/_base.scss''] \<rparr>, 0) \<and>
   watchLoop ex_compiler True [ex_entry] [Watcher 0 (Unlink ''/p/s/_base.scss''), SIGINT] (ex_state, 0) =
     Returned (ex_state\<lparr> console := [LogRemoved ''/p/s/_base.scss''] \<rparr>, 0)"
  using removal_is_inert [of ex_compiler ex_entry "''/p/s/_base.scss''" ex_state 0]
  by (simp add: ex_state_def init_state_def dependentsOf_def)

lemma relationTracker_keeps_dependent:
  "E \<in> set (dependentsOf g f) \<Longrightarrow> E \<in> set (dependentsOf (relationTracker d g) f)"
  by (simp add: relationTracker_def dependentsOf_fold_trackFile)

lemma relationTracker_keeps_key:
  "k \<in> fst ` set g \<Longrightarrow> k \<in> fst ` set (relationTracker d g)"
  by (simp add: relationTracker_def keys_fold_trackFile)

text \<open>
  Claim C8. The table only grows. An entry \<open>E\<close> that is a dependent of \<open>f\<close> is still one
  after any call of \<open>relationTracker\<close>, also for a later result of \<open>E\<close> that does not
  include \<open>f\<close> any more, after any event of the one-shot pass, after the resumption of
  any suspended listener, after any event of a watcher, and when \<open>compile\<close> returns; and
  likewise a key of the table stays a key.
\<close>

theorem additive_only:
  "(E \<in> set (dependentsOf (relationships st) f) \<longrightarrow>
      E \<in> set (dependentsOf (relationTracker d (relationships st)) f) \<and>
      E \<in> set (dependentsOf (relationships (passStep params entries ev st)) f) \<and>
      E \<in> set (dependentsOf (relationships (settleWrite n r st)) f) \<and>
      E \<in> set (dependentsOf (relationships (fst (watcherEvent cf entry wev (st, w)))) f) \<and>
      (\<forall>st' w'. compile cf env params (st, w) = Returned (st', w') \<longrightarrow>
         E \<in> set (dependentsOf (relationships st') f))) \<and>
   (k \<in> fst ` set (relationships st) \<longrightarrow>
      k \<in> fst ` set (relationTracker d (relationships st)) \<and>
      k \<in> fst ` set (relationships (passStep params entries ev st)) \<and>
      k \<in> fst ` set (relationships (settleWrite n r st)) \<and>
      k \<in> fst ` set (relationships (fst (watcherEvent cf entry wev (st, w)))) \<and>
      (\<forall>st' w'. compile cf env params (st, w) = Returned (st', w') \<longrightarrow>
         k \<in> fst ` set (relationships st')))"
proof (intro conjI impI allI)
  assume a: "E \<in> set (dependentsOf (relationships st) f)"
  show "E \<in> set (dependentsOf (relationTracker d (relationships st)) f)"
    using a by (rule relationTracker_keeps_dependent)
  show "E \<in> set (dependentsOf (relationships (passStep params entries ev st)) f)"
    by (rule passStep_graph [where P = "\<lambda>g. E \<in> set (dependentsOf g f)"])
       (simp_all add: relationTracker_keeps_dependent a)
  show "E \<in> set (dependentsOf (relationships (settleWrite n r st)) f)"
    by (rule settleWrite_graph [where P = "\<lambda>g. E \<in> set (dependentsOf g f)"])
       (simp_all add: relationTracker_keeps_dependent a)
  show "E \<in> set (dependentsOf (relationships (fst (watcherEvent cf entry wev (st, w)))) f)"
    using a watcherEvent_state [of cf entry wev "(st, w)"] by simp
  show "E \<in> set (dependentsOf (relationships st') f)"
    if "compile cf env params (st, w) = Returned (st', w')" for st' w'
    by (rule compile_graph [where P = "\<lambda>g. E \<in> set (dependentsOf g f)", OF _ a that])
       (rule relationTracker_keeps_dependent)
next
  assume a: "k \<in> fst ` set (relationships st)"
  show "k \<in> fst ` set (relationTracker d (relationships st))"
    using a by (rule relationTracker_keeps_key)
  show "k \<in> fst ` set (relationships (passStep params entries ev st))"
    by (rule passStep_graph [where P = "\<lambda>g. k \<in> fst ` set g"])
       (simp_all add: relationTracker_keeps_key a)
  show "k \<in> fst ` set (relationships (settleWrite n r st))"
    by (rule settleWrite_graph [where P = "\<lambda>g. k \<in> fst ` set g"])
       (simp_all add: relationTracker_keeps_key a)
  show "k \<in> fst ` set (relationships (fst (watcherEvent cf entry wev (st, w))))"
    using a watcherEvent_state [of cf entry wev "(st, w)"] by simp
  show "k \<in> fst ` set (relationships st')"
    if "compile cf env params (st, w) = Returned (st', w')" for st' w'
    by (rule compile_graph [where P = "\<lambda>g. k \<in> fst ` set g", OF _ a that])
       (rule relationTracker_keeps_key)
qed

theorem additive_only_witness:
  "''/p/s/app.scss'' \<in> set (dependentsOf (relationships ex_state) ''/p/s/_base.scss'') \<and>
   ''/p/s/_base.scss'' \<notin> set (includedFiles ex_dropped) \<and>
   ''/p/s/app.scss'' \<in> set (dependentsOf (relationTracker ex_dropped (relationships ex_state)) ''/p/s/_base.scss'') \<and>
   ''/p/s/_base.scss'' \<in> fst ` set (relationTracker ex_dropped (relationships ex_state))"
  using additive_only [where E = "''/p/s/app.scss''" and st = ex_state and f = "''/p/s/_base.scss''"
      and d = ex_dropped and k = "''/p/s/_base.scss''" and params = "ex_params True False"
      and entries = "[ex_entry]" and ev = "Data 0 ex_dropped" and n = 0 and r = None
      and cf = ex_compiler and entry = ex_entry and wev = Ready and w = 0
      and env = "ex_env None []"]
  by (simp add: ex_state_def init_state_def dependentsOf_def ex_dropped_def)

text \<open>
  Claim C1, evaluated on the code. The table holds what the cold build recorded;
  \<open>app.scss\<close> changes and its recompile succeeds, reporting the new partial \<open>_new.scss\<close>.
  The change handler does not pass the result to \<open>relationTracker\<close>: the table is as
  before and \<open>_new.scss\<close> is not a key of it. (By \<open>changeHandler_state\<close> the handler
  leaves the table unchanged on every input.)
\<close>

theorem change_handler_does_not_record:
  "ex_compiler 0 ''/p/s/app.scss'' ex_entry =
     (Inr \<lparr> d_from = ''/p/s/app.scss'', d_to = ''/p/s/app.scss.css'',
            includedFiles = [''/p/s/app.scss'', ''/p/s/_new.scss''] \<rparr>, 1) \<and>
   compiled (fst (changeHandler ex_compiler ex_entry ''/p/s/app.scss'' (ex_state, 0))) =
     [''/p/s/app.scss''] \<and>
   relationships (fst (changeHandler ex_compiler ex_entry ''/p/s/app.scss'' (ex_state, 0))) =
     relationships ex_state \<and>
   dependentsOf (relationships (fst (changeHandler ex_compiler ex_entry ''/p/s/app.scss'' (ex_state, 0))))
     ''/p/s/_new.scss'' = [] \<and>
   ''/p/s/_new.scss'' \<notin>
     fst ` set (relationships (fst (changeHandler ex_compiler ex_entry ''/p/s/app.scss'' (ex_state, 0))))"
  by (simp add: changeHandler_def ex_compiler_def ex_state_def init_state_def dependentsOf_def)

section \<open>Recording in the one-shot pass\<close>




section \<open>Exit codes and the end of the run\<close>

lemma allEnded_none: "allEnded n [] \<longleftrightarrow> n = 0"
  by (cases n) (simp_all add: allEnded_def)

lemma compile_executor_failure:
  "executorFailure env params = Some e \<Longrightarrow>
     \<exists>st'. compile cf env params (st, w) = Returned (st', w) \<and> exitCode st' = Some 1"
  by (simp add: compile_def)

text \<open>
  An \<open>error\<close> event on a stream while the pass runs ends the process: \<open>compile\<close> neither
  returns nor reaches its \<open>catch\<close>.
\<close>

lemma stream_error_uncaught:
  assumes "executorFailure env params = None" and "mkEntries env params \<noteq> []"
    and "events env = StreamError i e # rest"
  shows "compile cf env params sw = Uncaught e"
  using assms
  by (simp add: compile_def coldBuild_def allEnded_none andThen_def)

lemma compile_errors:
  assumes "executorFailure env params = None"
    and "coldBuild env params st = Returned (st1, rest)" and "hasErrors st1"
  shows "compile cf env params (st, w) =
     Returned (st1\<lparr> console := console st1 @ [LogCompileErrors (errorCollector st1)],
                   exitCode := Some 2 \<rparr>, w)"
  using assms by (simp add: compile_def andThen_def)

lemma coldBuild_keeps:
  assumes "coldBuild env params st = Returned (st1, rest)"
  shows "compiled st1 = compiled st \<and> exitCode st1 = exitCode st \<and>
         (LogStartingWatch \<notin> set (console st) \<longrightarrow> LogStartingWatch \<notin> set (console st1)) \<and>
         (RelationshipsFile g \<notin> set (written st) \<longrightarrow> RelationshipsFile g \<notin> set (written st1))"
proof -
  let ?Q = "\<lambda>s. compiled s = compiled st \<and> exitCode s = exitCode st \<and>
         (LogStartingWatch \<notin> set (console st) \<longrightarrow> LogStartingWatch \<notin> set (console s)) \<and>
         (RelationshipsFile g \<notin> set (written st) \<longrightarrow> RelationshipsFile g \<notin> set (written s))"
  have "LogStartingWatch \<notin> set (snd (loadConfig params (fileConfig env)))"
    by (simp add: loadConfig_def split: option.splits)
  then have init: "?Q (preamble env params st)"
    by (auto simp: preamble_def)
  have step: "?Q (passStep params (mkEntries env params) ev s)" if "?Q s" for ev s
    using that by (simp add: passStep_state passStep_written passStep_console)
  have ret: "pass params (rejectionsThrow env) (mkEntries env params) [] (events env)
      (preamble env params st) = Returned (st1, rest)"
    using assms by (simp add: coldBuild_def)
  show ?thesis
    by (rule pass_invariant [where Q = ?Q, OF step init ret])
qed

text \<open>A pass with a failing unit, on the example inputs, evaluated.\<close>

lemma ex_cold_failed:
  "coldBuild (ex_env None [Data 0 ex_app, Failed 0 ''boom'', Data 0 ex_main, End 0])
     (ex_params True True) init_state =
   Returned (\<lparr> relationships = [], errorCollector = [''boom''],
       console = [LogOutputStyle expanded, LogSourceMap False, LogNoConfig, LogSourceDir ''s'' ''o'',
         LogUnit ''/p/s/app.scss'' ''/p/o/app.css'', LogUnit ''/p/s/main.scss'' ''/p/o/main.css''],
       written = [], compiled = [], exitCode = None,
       suspended = [(ex_params True True, ex_app), (ex_params True True, ex_main)] \<rparr>, [])"
  by (simp add: coldBuild_def preamble_def mkEntries_def mkEntry_def split_colon_def loadConfig_def
      sassCliConfig_def ex_env_def allEnded_def passStep_def dataListener_def unhandled_def
      init_state_def Let_def)
     (simp add: ex_params_def mkEntry_def split_colon_def ex_app_def ex_main_def Let_def)

text \<open>
  Claim C10. When the pass has resolved and the error collector holds an error, \<open>compile\<close>
  returns at once with exit code 2, whatever \<open>params.watch\<close>, \<open>params.debug\<close> and the
  events that follow are: it does not wait for an interrupt, the world is untouched, no
  recompile is attempted, watch mode is not started, and the debug files are those of the
  pass, with no \<open>relationships.json\<close> added.
\<close>

theorem errors_end_the_run:
  assumes "executorFailure env params = None"
    and "coldBuild env params st = Returned (st1, rest)" and "hasErrors st1"
  shows "\<exists>st'. compile cf env params (st, w) = Returned (st', w) \<and>
           exitCode st' = Some 2 \<and>
           compiled st' = compiled st \<and>
           written st' = written st1 \<and>
           (LogStartingWatch \<notin> set (console st) \<longrightarrow> LogStartingWatch \<notin> set (console st')) \<and>
           (RelationshipsFile g \<notin> set (written st) \<longrightarrow> RelationshipsFile g \<notin> set (written st'))"
  using assms coldBuild_keeps [OF assms(2), of g]
  by (simp add: compile_errors)

theorem errors_end_the_run_witness:
  "watch (ex_params True True) \<and> debug (ex_params True True) \<and>
   (\<exists>st'. compile ex_compiler (ex_env None [Data 0 ex_app, Failed 0 ''boom'', Data 0 ex_main, End 0])
            (ex_params True True) (init_state, 0) = Returned (st', 0) \<and>
          exitCode st' = Some 2 \<and> compiled st' = [] \<and>
          LogStartingWatch \<notin> set (console st') \<and>
          written st' = [])"
proof -
  let ?env = "ex_env None [Data 0 ex_app, Failed 0 ''boom'', Data 0 ex_main, End 0]"
  let ?params = "ex_params True True"
  have flags: "watch ?params \<and> debug ?params" by (simp add: ex_params_def)
  have r: "executorFailure ?env ?params = None"
    by (simp add: executorFailure_def ex_env_def mkEntries_def ex_params_def List.map_filter_simps)
  have i: "compiled init_state = []" "LogStartingWatch \<notin> set (console init_state)"
    by (simp_all add: init_state_def)
  from errors_end_the_run [OF r ex_cold_failed, of ex_compiler 0 "[]"] flags i
  show ?thesis by (auto simp: hasErrors_def)
qed

text \<open>
  The exit code with which \<open>compile\<close> returns, for a process whose exit code is not yet
  assigned: 1 when an executor threw, 2 when the pass resolved with errors in the
  collector, 0 after watch mode, and unassigned otherwise.
\<close>

lemma compile_exit_code:
  assumes fresh: "exitCode st = None"
    and ret: "compile cf env params (st, w) = Returned (st', w')"
  shows "exitCode st' =
     (if executorFailure env params \<noteq> None then Some 1
      else if (\<exists>s evs. coldBuild env params st = Returned (s, evs) \<and> hasErrors s) then Some 2
      else if watch params then Some 0
      else None)"
proof (cases "executorFailure env params")
  case (Some e)
  with ret show ?thesis by (auto simp: compile_def)
next
  case None
  with ret obtain s1 evs1 where cold: "coldBuild env params st = Returned (s1, evs1)"
    by (auto simp: compile_def andThen_Returned)
  have e1: "exitCode s1 = None"
    using coldBuild_keeps [OF cold, of "[]"] fresh by simp
  show ?thesis
  proof (cases "hasErrors s1")
    case True
    with ret None cold show ?thesis
      by (auto simp: compile_errors)
  next
    case False
    from ret None cold False obtain s2 evs2 where
      snap: "(if debug params then awaitSnapshot (rejectionsThrow env) (relationships s1) evs1 s1
              else Returned (s1, evs1)) = Returned (s2, evs2)"
      and rest: "(if watch params
          then andThen (enableWatchMode cf (rejectionsThrow env) (chokidarOk env)
                 (mkEntries env params) evs2
                 (s2\<lparr> console := console s2 @ [LogAllCompiled] \<rparr>, snd (st, w)))
               (\<lambda>sw'. Returned ((fst sw')\<lparr> console := console (fst sw') @ [LogGracefulShutdown],
                                            exitCode := Some 0 \<rparr>, snd sw'))
          else Returned (s2\<lparr> console := console s2 @ [LogAllCompiled] \<rparr>, snd (st, w))) =
        Returned (st', w')"
      by (auto simp: compile_def andThen_Returned Let_def)
    have e2: "exitCode s2 = None"
    proof (cases "debug params")
      case True
      with snap have a: "awaitSnapshot (rejectionsThrow env) (relationships s1) evs1 s1 =
          Returned (s2, evs2)" by simp
      show ?thesis
        by (rule awaitSnapshot_invariant [where Q = "\<lambda>s. exitCode s = None", OF _ _ e1 a])
           (simp_all add: settleWrite_state)
    next
      case False
      with snap e1 show ?thesis by simp
    qed
    show ?thesis
    proof (cases "watch params")
      case True
      with rest None cold False show ?thesis
        by (auto simp: andThen_Returned)
    next
      case nw: False
      with rest None cold False e2 show ?thesis by auto
    qed
  qed
qed

text \<open>
  With \<open>params.debug\<close> the listeners are still suspended when the streams end, so the
  snapshot is taken of a table that holds none of their recordings.
\<close>

lemma snapshot_before_recordings:
  "map_run (written \<circ> fst)
     (compile ex_compiler (ex_env None [Data 0 ex_app, End 0, SnapshotSettled None])
        (ex_params False True) (init_state, 0)) = Returned [RelationshipsFile []]"
  by (simp add: compile_def executorFailure_def coldBuild_def preamble_def mkEntries_def
      mkEntry_def split_colon_def loadConfig_def sassCliConfig_def ex_env_def ex_params_def
      allEnded_def passStep_def dataListener_def hasErrors_def andThen_def init_state_def Let_def)


text \<open>
  Claim C9, evaluated on the code. The source directory cannot be read and the stream of
  the entry emits \<open>error\<close>, at once or after a unit. The promise of the entry is never
  rejected, so \<open>compile\<close> does not reach the \<open>catch\<close> that sets exit code 1: the error is
  an uncaught exception and \<open>compile\<close> does not return. (By \<open>stream_error_uncaught\<close> this
  is so for every environment whose first event is such an error; \<open>compile_exit_code\<close>
  gives the exit code with which \<open>compile\<close> returns when it does: 1 when an executor
  throws, 2 when the pass resolves with errors, 0 after watch mode.)
\<close>

theorem enumeration_failure_is_uncaught:
  "compile ex_compiler (ex_env None [StreamError 0 ''ENOENT'']) (ex_params False False)
     (init_state, 0) = Uncaught ''ENOENT'' \<and>
   compile ex_compiler (ex_env None [Data 0 ex_app, StreamError 0 ''EACCES'', End 0])
     (ex_params True False) (init_state, 0) = Uncaught ''EACCES''"
  by (simp add: compile_def executorFailure_def coldBuild_def mkEntries_def ex_env_def
      ex_params_def allEnded_def andThen_def)

end
